theory Spec2Isabelle
  imports Main
begin

section \<open>Channel modes (modes.go)\<close>

text \<open>
  A Go \<^verbatim>\<open>string\<close> is a sequence of bytes and \<^verbatim>\<open>flags[i]\<close> is a byte, so a Go
  string is a \<^typ>\<open>string\<close> here and a byte is a \<^typ>\<open>char\<close>.
\<close>

subsection \<open>CMode and CModes\<close>

record CMode =
  add :: bool
  name :: char
  setting :: bool
  args :: string

record CModes =
  raw :: string
  modesListArgs :: string
  modesArgs :: string
  modesSetArgs :: string
  modesNoArgs :: string
  prefixes :: string
  modes :: "CMode list"

subsection \<open>CModes.String\<close>

text \<open>
  \<^verbatim>\<open>string(b)\<close> of a byte \<^verbatim>\<open>b\<close> is the UTF-8 encoding of the code point \<^verbatim>\<open>b\<close>:
  the byte itself below \<^verbatim>\<open>0x80\<close>, and two bytes from there on.
\<close>

definition string_of_byte :: "char \<Rightarrow> string" where
  "string_of_byte b =
     (let n = of_char b :: nat
      in if n < 128 then [b] else [char_of (192 + n div 64), char_of (128 + n mod 64)])"

text \<open>
  The loop of \<^verbatim>\<open>String\<close> carries the two accumulators \<^verbatim>\<open>out\<close> and \<^verbatim>\<open>args\<close>.
\<close>

fun String_loop :: "CMode list \<Rightarrow> string \<Rightarrow> string \<Rightarrow> string \<times> string" where
  "String_loop [] out as = (out, as)"
| "String_loop (m # ms) out as =
     String_loop ms (out @ string_of_byte (name m))
       (if length (args m) > 0 then as @ '' '' @ args m else as)"

definition CModes_String :: "CModes \<Rightarrow> string" where
  "CModes_String c =
     (let out0 = (if length (modes c) > 0 then ''+'' else '''');
          (out, as) = String_loop (modes c) out0 ''''
      in out @ as)"

subsection \<open>CModes.hasArg\<close>

text \<open>
  \<^verbatim>\<open>strings.IndexByte(s, mode) > -1\<close> holds exactly when the byte occurs in \<^verbatim>\<open>s\<close>.
  The result is the pair \<^verbatim>\<open>(hasArgs, isSetting)\<close>.
\<close>

definition hasArg :: "CModes \<Rightarrow> bool \<Rightarrow> char \<Rightarrow> bool \<times> bool" where
  "hasArg c set_flag mode =
     (if length (raw c) < 1 then (False, True)
      else if mode \<in> set (modesListArgs c) then (True, False)
      else if mode \<in> set (modesArgs c) then (True, True)
      else if mode \<in> set (modesSetArgs c) then
        (if set_flag then (True, True) else (False, True))
      else if mode \<in> set (prefixes c) then (True, False)
      else (False, True))"

subsection \<open>CModes.apply\<close>

text \<open>
  The inner loop of the first pass: the first incoming change that is a setting, has the
  name of the stored entry and is an addition; \<^verbatim>\<open>break\<close> leaves the loop there.
\<close>

fun apply_find :: "CMode \<Rightarrow> CMode list \<Rightarrow> CMode option" where
  "apply_find cm [] = None"
| "apply_find cm (m # ms) =
     (if \<not> setting m then apply_find cm ms
      else if name cm = name m \<and> add m then Some m
      else apply_find cm ms)"

text \<open>The first pass, over the stored entries, appending to \<^verbatim>\<open>new\<close>.\<close>

fun apply_stored :: "CMode list \<Rightarrow> CMode list \<Rightarrow> CMode list \<Rightarrow> CMode list" where
  "apply_stored [] ms new = new"
| "apply_stored (cm # cms) ms new =
     (case apply_find cm ms of
        Some m \<Rightarrow> apply_stored cms ms (new @ [m])
      | None \<Rightarrow> apply_stored cms ms (new @ [cm]))"

text \<open>The inner loop of the second pass: is the name already in \<^verbatim>\<open>new\<close>?\<close>

fun apply_isin :: "char \<Rightarrow> CMode list \<Rightarrow> bool" where
  "apply_isin n [] = False"
| "apply_isin n (x # xs) = (if n = name x then True else apply_isin n xs)"

text \<open>The second pass, over the incoming changes.\<close>

fun apply_incoming :: "CMode list \<Rightarrow> CMode list \<Rightarrow> CMode list" where
  "apply_incoming [] new = new"
| "apply_incoming (m # ms) new =
     (if \<not> setting m \<or> \<not> add m then apply_incoming ms new
      else if apply_isin (name m) new then apply_incoming ms new
      else apply_incoming ms (new @ [m]))"

definition CModes_apply :: "CModes \<Rightarrow> CMode list \<Rightarrow> CModes" where
  "CModes_apply c ms = c\<lparr>modes := apply_incoming ms (apply_stored (modes c) ms [])\<rparr>"

subsection \<open>CModes.parse\<close>

text \<open>
  The loop state is the polarity \<^verbatim>\<open>add\<close>, the cursor \<^verbatim>\<open>argCount\<close> and the
  output \<^verbatim>\<open>out\<close>. A mode that gets no argument keeps the zero value \<^verbatim>\<open>""\<close>.
  \<^verbatim>\<open>args[argCount]\<close> is read only under \<^verbatim>\<open>len(args) >= argCount+1\<close>.
\<close>

fun parse_loop ::
  "CModes \<Rightarrow> string \<Rightarrow> string list \<Rightarrow> bool \<Rightarrow> nat \<Rightarrow> CMode list \<Rightarrow> CMode list" where
  "parse_loop c [] as ad argCount out = out"
| "parse_loop c (f # fs) as ad argCount out =
     (if f = CHR ''+'' then parse_loop c fs as True argCount out
      else if f = CHR ''-'' then parse_loop c fs as False argCount out
      else
        (let (hasArgs, isSetting) = hasArg c ad f
         in if hasArgs \<and> length as \<ge> argCount + 1
            then parse_loop c fs as ad (argCount + 1)
                   (out @ [\<lparr>add = ad, name = f, setting = isSetting, args = as ! argCount\<rparr>])
            else parse_loop c fs as ad argCount
                   (out @ [\<lparr>add = ad, name = f, setting = isSetting, args = ''''\<rparr>])))"

definition CModes_parse :: "CModes \<Rightarrow> string \<Rightarrow> string list \<Rightarrow> CMode list" where
  "CModes_parse c flags as = parse_loop c flags as True 0 []"

subsection \<open>newCModes\<close>

text \<open>
  \<^verbatim>\<open>strings.SplitN(s, ",", n)\<close> for \<^verbatim>\<open>n > 0\<close>: at most \<^verbatim>\<open>n\<close> pieces, the last
  one the unsplit rest; the empty string gives the one piece \<^verbatim>\<open>""\<close>.
\<close>

fun SplitN_comma :: "string \<Rightarrow> nat \<Rightarrow> string list" where
  "SplitN_comma s 0 = []"
| "SplitN_comma s (Suc 0) = [s]"
| "SplitN_comma s (Suc (Suc n)) =
     (if CHR '','' \<in> set s
      then takeWhile (\<lambda>ch. ch \<noteq> CHR '','') s
             # SplitN_comma (tl (dropWhile (\<lambda>ch. ch \<noteq> CHR '','') s)) (Suc n)
      else [s])"

text \<open>The padding loop \<^verbatim>\<open>for i := len(split); i < 4; i++\<close>.\<close>

definition pad4 :: "string list \<Rightarrow> string list" where
  "pad4 split = split @ replicate (4 - length split) ''''"

definition newCModes :: "string \<Rightarrow> string \<Rightarrow> CModes" where
  "newCModes channelModes userPrefixes =
     (let split = pad4 (SplitN_comma channelModes 4)
      in \<lparr>raw = channelModes,
          modesListArgs = split ! 0,
          modesArgs = split ! 1,
          modesSetArgs = split ! 2,
          modesNoArgs = split ! 3,
          prefixes = userPrefixes,
          modes = []\<rparr>)"

subsection \<open>The merge of \<^verbatim>\<open>apply\<close>, stated on its own\<close>

text \<open>
  The three rules of the merge, written without loops or accumulators, to compare
  \<^verbatim>\<open>apply\<close> with. \<open>superseding incoming e\<close> is the incoming change that takes the
  place of the stored entry \<open>e\<close>: the first one that is a setting, is an addition and
  has the mode character of \<open>e\<close>.
\<close>

definition superseding :: "CMode list \<Rightarrow> CMode \<Rightarrow> CMode option" where
  "superseding incoming e = find (\<lambda>m. setting m \<and> add m \<and> name m = name e) incoming"

text \<open>The first entry of every mode character, in the order of the list.\<close>

fun first_per_name :: "CMode list \<Rightarrow> CMode list" where
  "first_per_name [] = []"
| "first_per_name (m # ms) = m # first_per_name (filter (\<lambda>z. name z \<noteq> name m) ms)"

text \<open>
  (1) every stored entry stays in its place, replaced by the change that supersedes it if
  there is one; (2) behind them come the incoming changes that are settings and additions
  and whose mode character no stored entry has, once per mode character; (3) nothing else.
\<close>

definition merge_spec :: "CMode list \<Rightarrow> CMode list \<Rightarrow> CMode list" where
  "merge_spec existing incoming =
     map (\<lambda>e. case superseding incoming e of Some m \<Rightarrow> m | None \<Rightarrow> e) existing
     @ first_per_name
         (filter (\<lambda>m. setting m \<and> add m \<and> name m \<notin> name ` set existing) incoming)"

subsection \<open>The scan of \<^verbatim>\<open>parse\<close>, stated by position\<close>

definition is_sign :: "char \<Rightarrow> bool" where
  "is_sign ch \<longleftrightarrow> ch = CHR ''+'' \<or> ch = CHR ''-''"

text \<open>
  The polarity in force behind the flags \<open>pre\<close>, when it was \<open>a\<close> before them: that
  of the last sign in \<open>pre\<close>, and \<open>a\<close> if \<open>pre\<close> has no sign.
\<close>

definition polarity_from :: "bool \<Rightarrow> string \<Rightarrow> bool" where
  "polarity_from a pre =
     (let ss = filter is_sign pre in if ss = [] then a else last ss = CHR ''+'')"

text \<open>Whether \<^verbatim>\<open>hasArg\<close> reports an argument for a parsed mode.\<close>

definition takes_arg :: "CModes \<Rightarrow> CMode \<Rightarrow> bool" where
  "takes_arg c m = fst (hasArg c (add m) (name m))"

text \<open>
  The mode that one step of the scan appends for the flag \<open>f\<close>, at polarity \<open>ad\<close> and
  cursor \<open>n\<close>, and the cursor behind it.
\<close>

definition parsed_mode :: "CModes \<Rightarrow> string list \<Rightarrow> bool \<Rightarrow> nat \<Rightarrow> char \<Rightarrow> CMode" where
  "parsed_mode c as ad n f =
     \<lparr>add = ad, name = f, setting = snd (hasArg c ad f),
      args = (if fst (hasArg c ad f) \<and> n < length as then as ! n else '''')\<rparr>"

definition next_cursor :: "CModes \<Rightarrow> string list \<Rightarrow> bool \<Rightarrow> nat \<Rightarrow> char \<Rightarrow> nat" where
  "next_cursor c as ad n f = (if fst (hasArg c ad f) \<and> n < length as then Suc n else n)"

subsection \<open>Rendering and parsing again\<close>

text \<open>
  \<^verbatim>\<open>handleMODE\<close> reads the flags from \<^verbatim>\<open>e.Params[1]\<close> and the arguments from
  \<^verbatim>\<open>e.Params[2:]\<close>: a rendered mode string reaches \<^verbatim>\<open>parse\<close> as the fields of the
  line, which single spaces separate. \<open>Split_space\<close> is \<^verbatim>\<open>strings.Split(s, " ")\<close>.
\<close>

function Split_space :: "string \<Rightarrow> string list" where
  "Split_space s =
     (if CHR '' '' \<in> set s
      then takeWhile (\<lambda>ch. ch \<noteq> CHR '' '') s
             # Split_space (tl (dropWhile (\<lambda>ch. ch \<noteq> CHR '' '') s))
      else [s])"
  by pat_completeness auto
termination
proof (relation "measure length")
  show "wf (measure length)" by simp
next
  fix s :: string
  assume "CHR '' '' \<in> set s"
  then have "dropWhile (\<lambda>ch. ch \<noteq> CHR '' '') s \<noteq> []" by simp
  then have "length (tl (dropWhile (\<lambda>ch. ch \<noteq> CHR '' '') s))
             < length (dropWhile (\<lambda>ch. ch \<noteq> CHR '' '') s)" by simp
  also have "\<dots> \<le> length s" by (rule length_dropWhile_le)
  finally show "(tl (dropWhile (\<lambda>ch. ch \<noteq> CHR '' '') s), s) \<in> measure length" by simp
qed

declare Split_space.simps [simp del]

text \<open>Render the set, split the line, parse it with the set's own tables, merge it in.\<close>

definition roundtrip :: "CModes \<Rightarrow> CModes" where
  "roundtrip c =
     (case Split_space (CModes_String c) of
        [] \<Rightarrow> c
      | flags # as \<Rightarrow> CModes_apply c (CModes_parse c flags as))"

section \<open>The client (the client code that follows the modes in modes.go)\<close>

subsection \<open>Data\<close>

text \<open>
  The command constants (\<^verbatim>\<open>PASS\<close>, \<^verbatim>\<open>NICK\<close>, \<^verbatim>\<open>RPL_WHOWASUSER\<close>, ...) are declared
  in a file that is not among the sources: they are distinct protocol tokens, constructors
  here.
\<close>

datatype command =
  PASS | NICK | USER | QUIT | WHOWAS | RPL_WHOWASUSER | RPL_ENDOFWHOWAS | Other string

record Event =
  Command :: command
  Params :: "string list"
  Trailing :: string
  Sensitive :: bool

record User =
  Nick :: string
  Ident :: string
  Host :: string
  Name :: string

text \<open>
  \<^verbatim>\<open>Conn\<close> and \<^verbatim>\<open>TLSConfig\<close> are pointers, read only for \<^verbatim>\<open>nil\<close>: a field is
  \<open>True\<close> when the pointer is set. Durations are nanoseconds (\<^verbatim>\<open>time.Duration\<close>).
  The logger is left out with the logging.
\<close>

record Config =
  Server :: string
  Port :: int
  Password :: string
  Nick :: string
  User :: string
  Name :: string
  Conn :: bool
  TLSConfig :: bool
  MaxRetries :: int
  ReconnectDelay :: int
  DisableTracking :: bool
  DisableCapTracking :: bool
  DisableNickCollision :: bool

definition Second :: int where
  "Second = 1000000000"

text \<open>
  The errors the client returns: \<^verbatim>\<open>errors.New\<close> with its text, the two error
  variables, the two error structs, an error handed up from the transport
  (\<^verbatim>\<open>net.Dial\<close>, \<^verbatim>\<open>Encode\<close>), and a panic with its text.
\<close>

datatype error =
    ErrorString string
  | ErrNotConnected
  | ErrAlreadyConnecting
  | ErrInvalidTarget string
  | ErrCallbackTimedout string int
  | TransportError
  | Panic string

text \<open>
  The fields of the session state that the client code reads and writes (the struct's
  declaration is not among the sources); \<open>conn\<close> is \<open>True\<close> when \<^verbatim>\<open>c.state.conn\<close>
  is not \<^verbatim>\<open>nil\<close>.
\<close>

record state =
  nick :: string
  connected :: bool
  reconnecting :: bool
  hasQuit :: bool
  conn :: bool

text \<open>
  Modelled from the spec: \<^verbatim>\<open>newState\<close> is not among the sources. The spec has the
  session state "rebuilt from scratch" by every connect, and \<^verbatim>\<open>Reconnect\<close> notes
  that "a connect should reset" the reconnecting flag: every field has its zero value.
\<close>

definition newState :: state where
  "newState = \<lparr>nick = '''', connected = False, reconnecting = False, hasQuit = False,
                conn = False\<rparr>"

text \<open>
  Modelled from the spec: the callback registry (\<^verbatim>\<open>Caller\<close>, with \<^verbatim>\<open>AddBg\<close> and
  \<^verbatim>\<open>Remove\<close>) is not among the sources. An entry has its identifier, the command it
  filters on and the background flag; the handler itself is left out, and what the two
  handlers of \<^verbatim>\<open>Whowas\<close> do is part of \<open>Whowas_wait\<close> below.
\<close>

record CallbackEntry =
  cb_id :: string
  cb_cmd :: command
  cb_bg :: bool

text \<open>What the client does to the world around it, in the order it does it.\<close>

datatype effect =
    Dial bool string int
  | Encode Event
  | CloseConn
  | Sleep int
  | SpawnReadLoop
  | StopSignal
  | CloseEvents

record Client =
  Config :: Config
  state :: state
  tries :: int
  Callbacks :: "CallbackEntry list"
  trace :: "effect list"

text \<open>
  What the world answers: the validators of nicknames and user names (not among the
  sources), whether the \<open>k\<close>-th opening of a transport and the \<open>k\<close>-th write
  succeed (counted from 0), and the identifier the registry gives a new entry.
\<close>

record world =
  IsValidNick :: "string \<Rightarrow> bool"
  IsValidUser :: "string \<Rightarrow> bool"
  dial_ok :: "nat \<Rightarrow> bool"
  encode_ok :: "nat \<Rightarrow> bool"
  new_id :: "CallbackEntry list \<Rightarrow> string"

fun is_Dial :: "effect \<Rightarrow> bool" where
  "is_Dial (Dial t h p) = True"
| "is_Dial e = False"

fun is_Encode :: "effect \<Rightarrow> bool" where
  "is_Encode (Encode e) = True"
| "is_Encode e = False"

definition emit :: "Client \<Rightarrow> effect \<Rightarrow> Client" where
  "emit c e = c\<lparr>trace := trace c @ [e]\<rparr>"

text \<open>How often the client has opened a transport.\<close>

definition dials :: "Client \<Rightarrow> nat" where
  "dials c = length (filter is_Dial (trace c))"

subsection \<open>Send, Stop, Quit, IsConnected\<close>

definition Send :: "world \<Rightarrow> Client \<Rightarrow> Event \<Rightarrow> error option \<times> Client" where
  "Send w c event =
     (let k = length (filter is_Encode (trace c))
      in (if encode_ok w k then None else Some TransportError, emit c (Encode event)))"

definition Stop :: "Client \<Rightarrow> Client" where
  "Stop c = emit c StopSignal"

definition IsConnected :: "Client \<Rightarrow> bool" where
  "IsConnected c = connected (state c)"

text \<open>
  \<^verbatim>\<open>Quit\<close> drops the result of \<^verbatim>\<open>Send\<close>; the deferred function clears
  \<^verbatim>\<open>hasQuit\<close> last.
\<close>

definition Quit :: "world \<Rightarrow> Client \<Rightarrow> string \<Rightarrow> Client" where
  "Quit w c message =
     (let c1 = c\<lparr>state := (state c)\<lparr>hasQuit := True\<rparr>\<rparr>;
          c2 = snd (Send w c1 \<lparr>Command = QUIT, Params = [], Trailing = message,
                               Sensitive = False\<rparr>);
          c3 = (if conn (state c2) then emit c2 CloseConn else c2)
      in c3\<lparr>state := (state c3)\<lparr>hasQuit := False\<rparr>\<rparr>)"

subsection \<open>Connect\<close>

text \<open>\<^verbatim>\<open>connectMessages\<close> also fills an empty \<^verbatim>\<open>Config.Name\<close> with the user name.\<close>

definition connectMessages :: "Client \<Rightarrow> Event list \<times> Client" where
  "connectMessages c =
     (let events0 =
            (if Password (Config c) \<noteq> ''''
             then [\<lparr>Command = PASS, Params = [Password (Config c)], Trailing = '''',
                     Sensitive = False\<rparr>]
             else []);
          events1 = events0 @ [\<lparr>Command = NICK, Params = [Config.Nick (Config c)],
                                 Trailing = '''', Sensitive = False\<rparr>];
          c' = (if Config.Name (Config c) = ''''
                then c\<lparr>Config := (Config c)\<lparr>Config.Name := Config.User (Config c)\<rparr>\<rparr>
                else c)
      in (events1 @ [\<lparr>Command = USER, Params = [Config.User (Config c'), ''+iw'', ''*''],
                       Trailing = Config.Name (Config c'), Sensitive = False\<rparr>], c'))"

text \<open>The loop over the handshake events: the first failing \<^verbatim>\<open>Send\<close> returns.\<close>

fun send_each :: "world \<Rightarrow> Client \<Rightarrow> Event list \<Rightarrow> error option \<times> Client" where
  "send_each w c [] = (None, c)"
| "send_each w c (e # es) =
     (case Send w c e of
        (Some err, c') \<Rightarrow> (Some err, c')
      | (None, c') \<Rightarrow> send_each w c' es)"

text \<open>Behind the transport: reader and writer, the handshake, the read loop, success.\<close>

definition Connect_handshake :: "world \<Rightarrow> Client \<Rightarrow> error option \<times> Client" where
  "Connect_handshake w c =
     (let (events, c1) = connectMessages c
      in case send_each w c1 events of
           (Some err, c2) \<Rightarrow> (Some err, c2)
         | (None, c2) \<Rightarrow>
             (let c3 = emit c2 SpawnReadLoop;
                  c4 = c3\<lparr>tries := 0\<rparr>
              in (None, c4\<lparr>state := (state c4)\<lparr>connected := True\<rparr>\<rparr>)))"

definition Connect :: "world \<Rightarrow> Client \<Rightarrow> error option \<times> Client" where
  "Connect w c =
     (if Server (Config c) = '''' then (Some (ErrorString ''invalid server specified''), c)
      else if Port (Config c) < 21 \<or> Port (Config c) > 65535
        then (Some (ErrorString ''invalid port (21-65535)''), c)
      else if \<not> IsValidNick w (Config.Nick (Config c)) \<or> \<not> IsValidUser w (Config.User (Config c))
        then (Some (ErrorString ''invalid nickname or user''), c)
      else
        (let c1 = c\<lparr>state := newState\<rparr>
         in if \<not> Conn (Config c1)
            then
              (let k = length (filter is_Dial (trace c1));
                   c2 = emit c1 (Dial (TLSConfig (Config c1)) (Server (Config c1))
                                   (Port (Config c1)))
               in if \<not> dial_ok w k then (Some TransportError, c2)
                  else Connect_handshake w (c2\<lparr>state := (state c2)\<lparr>conn := True\<rparr>\<rparr>))
            else Connect_handshake w (c1\<lparr>state := (state c1)\<lparr>conn := True\<rparr>\<rparr>)))"

text \<open>The configuration passes the three checks at the head of \<^verbatim>\<open>Connect\<close>.\<close>

definition valid_config :: "world \<Rightarrow> Config \<Rightarrow> bool" where
  "valid_config w cfg \<longleftrightarrow>
     Server cfg \<noteq> '''' \<and> 21 \<le> Port cfg \<and> Port cfg \<le> 65535 \<and>
     IsValidNick w (Config.Nick cfg) \<and> IsValidUser w (Config.User cfg)"

subsection \<open>Reconnect\<close>

text \<open>
  The \<^verbatim>\<open>for\<close> statement of \<^verbatim>\<open>Reconnect\<close> is
  \<^verbatim>\<open>for err = c.Connect(); err != nil && c.tries < c.Config.MaxRetries; c.tries++ { ... }\<close>:
  the call of \<^verbatim>\<open>Connect\<close> is its init statement and runs once, before the loop. The
  loop itself, with \<open>err\<close> as that call left it: the body marks the client
  reconnecting and sleeps, the post statement counts.
\<close>

function Reconnect_loop :: "error option \<Rightarrow> Client \<Rightarrow> Client" where
  "Reconnect_loop err c =
     (if err \<noteq> None \<and> tries c < MaxRetries (Config c)
      then Reconnect_loop err
             ((emit (c\<lparr>state := (state c)\<lparr>reconnecting := True\<rparr>\<rparr>)
                 (Sleep (ReconnectDelay (Config c))))
              \<lparr>tries := tries c + 1\<rparr>)
      else c)"
  by pat_completeness auto
termination
  by (relation "measure (\<lambda>(err, c). nat (MaxRetries (Config c) - tries c))")
     (auto simp: emit_def)

declare Reconnect_loop.simps [simp del]

text \<open>
  \<^verbatim>\<open>Reconnect\<close> in three parts. First the floor of ten seconds under the delay, and
  the \<^verbatim>\<open>Quit\<close> of a client that is still connected.
\<close>

definition Reconnect_prepare :: "world \<Rightarrow> Client \<Rightarrow> Client" where
  "Reconnect_prepare w c1 =
     (let c2 = (if ReconnectDelay (Config c1) < 10 * Second
                then c1\<lparr>Config := (Config c1)\<lparr>ReconnectDelay := 10 * Second\<rparr>\<rparr>
                else c1)
      in if IsConnected c2 then Quit w c2 ''reconnecting...'' else c2)"

text \<open>
  Then the block under \<^verbatim>\<open>c.Config.MaxRetries > 0\<close>: the sleep, the \<^verbatim>\<open>for\<close>
  statement with its one call of \<^verbatim>\<open>Connect\<close>, and \<^verbatim>\<open>Stop\<close> when \<open>err\<close> is
  still set.
\<close>

definition Reconnect_retry :: "world \<Rightarrow> Client \<Rightarrow> error option \<times> Client" where
  "Reconnect_retry w c3 =
     (let c4 = emit c3 (Sleep (ReconnectDelay (Config c3)));
          (err, c5) = Connect w c4;
          c6 = Reconnect_loop err c5;
          c7 = (if err \<noteq> None then Stop c6 else c6)
      in (err, c7))"

text \<open>And the guards in front of both.\<close>

definition Reconnect :: "world \<Rightarrow> Client \<Rightarrow> error option \<times> Client" where
  "Reconnect w c =
     (if reconnecting (state c) then (Some ErrAlreadyConnecting, c)
      else
        (let c1 = c\<lparr>state := (state c)\<lparr>reconnecting := True\<rparr>\<rparr>
         in if hasQuit (state c1) then (None, c1)
            else
              (let c3 = Reconnect_prepare w c1
               in if MaxRetries (Config c3) > 0 then Reconnect_retry w c3
                  else (None, emit c3 CloseEvents))))"

text \<open>
  \<^verbatim>\<open>readLoop\<close> on a failed read: one iteration, whose \<^verbatim>\<open>Decode\<close> fails. The loop
  returns from its guard or from the call of \<^verbatim>\<open>Reconnect\<close>; it does not go round
  again.
\<close>

definition readLoop_failed_read :: "world \<Rightarrow> Client \<Rightarrow> error option \<times> Client" where
  "readLoop_failed_read w c =
     (if reconnecting (state c) \<or> hasQuit (state c) then (Some ErrNotConnected, c)
      else Reconnect w c)"

subsection \<open>GetNick\<close>

definition GetNick :: "Client \<Rightarrow> error + string" where
  "GetNick c =
     (if DisableTracking (Config c) then Inl (Panic ''GetNick() used when tracking is disabled'')
      else if nick (state c) = '''' then Inr (Config.Nick (Config c))
      else Inr (nick (state c)))"

subsection \<open>Whowas\<close>

text \<open>
  Modelled from the spec: \<^verbatim>\<open>AddBg\<close> and \<^verbatim>\<open>Remove\<close> of the registry, which are not
  among the sources. Registering "adds a handler" and "returns a unique identifier";
  removing "deletes one entry", the one that carries the identifier.
\<close>

definition AddBg :: "world \<Rightarrow> Client \<Rightarrow> command \<Rightarrow> string \<times> Client" where
  "AddBg w c cmd =
     (let i = new_id w (Callbacks c)
      in (i, c\<lparr>Callbacks := Callbacks c @ [\<lparr>cb_id = i, cb_cmd = cmd, cb_bg = True\<rparr>]\<rparr>))"

definition Remove :: "Client \<Rightarrow> string \<Rightarrow> Client" where
  "Remove c i = c\<lparr>Callbacks := filter (\<lambda>e. cb_id e \<noteq> i) (Callbacks c)\<rparr>"

text \<open>
  The \<^verbatim>\<open>select\<close> of \<^verbatim>\<open>Whowas\<close>, over the events that are dispatched during the two
  seconds, in their order. The handler for \<^verbatim>\<open>RPL_ENDOFWHOWAS\<close> signals \<^verbatim>\<open>whoDone\<close> for
  an event of two parameters whose second is the nickname; the handler for
  \<^verbatim>\<open>RPL_WHOWASUSER\<close> collects an event of five parameters whose second is the nickname.
  \<open>None\<close>: the window ends with no signal and \<^verbatim>\<open>time.After\<close> fires.
\<close>

fun Whowas_wait :: "string \<Rightarrow> Event list \<Rightarrow> Event list \<Rightarrow> Event list option" where
  "Whowas_wait n [] events = None"
| "Whowas_wait n (e # es) events =
     (if Command e = RPL_ENDOFWHOWAS \<and> length (Params e) = 2 \<and> Params e ! 1 = n
      then Some events
      else if Command e = RPL_WHOWASUSER \<and> length (Params e) = 5 \<and> Params e ! 1 = n
      then Whowas_wait n es (events @ [e])
      else Whowas_wait n es events)"

definition Whowas :: "world \<Rightarrow> Client \<Rightarrow> string \<Rightarrow> Event list \<Rightarrow> (error + User list) \<times> Client" where
  "Whowas w c n inbound =
     (if \<not> IsValidNick w n then (Inl (ErrInvalidTarget n), c)
      else if \<not> IsConnected c then (Inl ErrNotConnected, c)
      else
        (let (whoCb, c1) = AddBg w c RPL_WHOWASUSER;
             (whoDoneCb, c2) = AddBg w c1 RPL_ENDOFWHOWAS;
             c3 = snd (Send w c2 \<lparr>Command = WHOWAS, Params = [n, ''10''], Trailing = '''',
                                  Sensitive = False\<rparr>)
         in case Whowas_wait n inbound [] of
              None \<Rightarrow>
                (Inl (ErrCallbackTimedout (whoCb @ '' + '' @ whoDoneCb) (Second * 2)),
                 Remove (Remove c3 whoCb) whoDoneCb)
            | Some events \<Rightarrow>
                (Inr (map (\<lambda>e. \<lparr>User.Nick = Params e ! 1, Ident = Params e ! 2,
                                 Host = Params e ! 3, User.Name = Trailing e\<rparr>) events),
                 Remove (Remove c3 whoCb) whoDoneCb)))"

section \<open>The earlier revision of the client (part\_000)\<close>


definition GetNick_rev0 :: "Client \<Rightarrow> string" where
  "GetNick_rev0 c = (if nick (state c) = '''' then Config.Nick (Config c) else nick (state c))"

section \<open>A world and a client to run the model on\<close>

text \<open>
  A world whose transport never opens: every name that is not empty is valid, every
  write succeeds, and a new callback gets an identifier one longer than the registry.
\<close>

definition failing_transport :: world where
  "failing_transport =
     \<lparr>IsValidNick = (\<lambda>s. s \<noteq> ''''), IsValidUser = (\<lambda>s. s \<noteq> ''''),
      dial_ok = (\<lambda>k. False), encode_ok = (\<lambda>k. True),
      new_id = (\<lambda>es. replicate (Suc (length es)) (CHR ''c''))\<rparr>"

text \<open>A connected client with two retries, a fresh nickname and one permanent callback.\<close>

definition connected_client :: Client where
  "connected_client =
     \<lparr>Config = \<lparr>Server = ''irc.example.org'', Port = 6667, Password = '''', Nick = ''girc'',
                 User = ''girc'', Name = ''girc'', Conn = False, TLSConfig = False,
                 MaxRetries = 2, ReconnectDelay = 0, DisableTracking = False,
                 DisableCapTracking = False, DisableNickCollision = False\<rparr>,
      state = \<lparr>nick = '''', connected = True, reconnecting = False, hasQuit = False,
                conn = True\<rparr>,
      tries = 0,
      Callbacks = [\<lparr>cb_id = ''c'', cb_cmd = Other ''PING'', cb_bg = False\<rparr>],
      trace = []\<rparr>"

section \<open>Properties of the channel modes\<close>

subsection \<open>apply is the merge\<close>

lemma apply_find_superseding: "apply_find e ms = superseding ms e"
  by (induction ms) (auto simp: superseding_def)

lemma apply_stored_map:
  "apply_stored es ms new =
     new @ map (\<lambda>e. case superseding ms e of Some m \<Rightarrow> m | None \<Rightarrow> e) es"
  by (induction es arbitrary: new) (auto simp: apply_find_superseding split: option.splits)

lemma apply_isin_iff: "apply_isin n xs \<longleftrightarrow> n \<in> name ` set xs"
  by (induction xs) auto

lemma apply_incoming_first:
  "apply_incoming ms new =
     new @ first_per_name
             (filter (\<lambda>m. setting m \<and> add m \<and> name m \<notin> name ` set new) ms)"
proof (induction ms arbitrary: new)
  case Nil
  then show ?case by simp
next
  case (Cons m ms)
  show ?case
  proof (cases "setting m \<and> add m \<and> name m \<notin> name ` set new")
    case False
    then show ?thesis using Cons.IH [of new] by (auto simp: apply_isin_iff)
  next
    case True
    have "filter (\<lambda>z. setting z \<and> add z \<and> name z \<notin> name ` set (new @ [m])) ms
          = filter (\<lambda>z. name z \<noteq> name m)
              (filter (\<lambda>z. setting z \<and> add z \<and> name z \<notin> name ` set new) ms)"
      by (auto intro: filter_cong)
    then show ?thesis using True Cons.IH [of "new @ [m]"] by (simp add: apply_isin_iff)
  qed
qed

lemma superseding_name:
  "superseding ms e = Some m \<Longrightarrow> name m = name e \<and> setting m \<and> add m \<and> m \<in> set ms"
  unfolding superseding_def by (induction ms) (auto split: if_splits)

lemma kept_names:
  "map name (map (\<lambda>e. case superseding ms e of Some m \<Rightarrow> m | None \<Rightarrow> e) es) = map name es"
  by (induction es) (auto split: option.splits dest: superseding_name)

lemma apply_modes: "modes (CModes_apply c ms) = merge_spec (modes c) ms"
proof -
  have "name ` set (map (\<lambda>e. case superseding ms e of Some m \<Rightarrow> m | None \<Rightarrow> e) (modes c))
        = name ` set (modes c)"
    using kept_names [of ms "modes c"] by (metis list.set_map)
  then show ?thesis
    by (simp add: CModes_apply_def merge_spec_def apply_stored_map apply_incoming_first)
qed

lemma first_per_name_subset: "set (first_per_name xs) \<subseteq> set xs"
  by (induction xs rule: first_per_name.induct) auto

lemma merge_spec_origin:
  "m \<in> set (merge_spec es ms) \<Longrightarrow> m \<in> set es \<or> (m \<in> set ms \<and> setting m \<and> add m)"
  using first_per_name_subset
  by (fastforce simp: merge_spec_def split: option.splits dest: superseding_name)

lemma superseding_no_add: "\<forall>r\<in>set rs. \<not> add r \<Longrightarrow> superseding rs e = None"
  unfolding superseding_def by (induction rs) auto

lemma merge_spec_removals: "\<forall>r\<in>set rs. \<not> add r \<Longrightarrow> merge_spec es rs = es"
proof -
  assume h: "\<forall>r\<in>set rs. \<not> add r"
  then have "filter (\<lambda>m. setting m \<and> add m \<and> name m \<notin> name ` set es) rs = []"
    by (auto simp: filter_empty_conv)
  with h show ?thesis
    by (simp add: merge_spec_def superseding_no_add)
qed

subsection \<open>Idempotence and distinct mode characters\<close>

lemma first_per_name_names: "name ` set (first_per_name xs) = name ` set xs"
proof (induction xs rule: first_per_name.induct)
  case 1
  then show ?case by simp
next
  case (2 m ms)
  then show ?case by auto
qed

lemma first_per_name_distinct: "distinct (map name (first_per_name xs))"
proof (induction xs rule: first_per_name.induct)
  case 1
  then show ?case by simp
next
  case (2 m ms)
  have "name m \<notin> name ` set (first_per_name (filter (\<lambda>z. name z \<noteq> name m) ms))"
    by (auto simp: first_per_name_names)
  with 2 show ?case by simp
qed

lemma merge_spec_distinct:
  assumes "distinct (map name es)"
  shows "distinct (map name (merge_spec es ms))"
proof -
  let ?A = "first_per_name (filter (\<lambda>m. setting m \<and> add m \<and> name m \<notin> name ` set es) ms)"
  have "name ` set ?A \<inter> name ` set es = {}"
    by (auto simp: first_per_name_names)
  then show ?thesis
    using assms first_per_name_distinct [of "filter (\<lambda>m. setting m \<and> add m \<and> name m \<notin> name ` set es) ms"]
    by (auto simp: merge_spec_def kept_names simp del: map_map)
qed

lemma first_per_name_find:
  "a \<in> set (first_per_name xs) \<Longrightarrow> find (\<lambda>m. name m = name a) xs = Some a"
proof (induction xs rule: first_per_name.induct)
  case 1
  then show ?case by simp
next
  case (2 m ms)
  show ?case
  proof (cases "a = m")
    case True
    then show ?thesis by simp
  next
    case False
    with 2 have a: "a \<in> set (first_per_name (filter (\<lambda>z. name z \<noteq> name m) ms))" by simp
    then have "a \<in> set (filter (\<lambda>z. name z \<noteq> name m) ms)"
      using first_per_name_subset by blast
    then have ne: "name a \<noteq> name m" by simp
    have "find (\<lambda>z. name z = name a) (filter (\<lambda>z. name z \<noteq> name m) ms) = Some a"
      using 2 a by simp
    moreover have "find (\<lambda>z. name z = name a) (filter (\<lambda>z. name z \<noteq> name m) ms)
                   = find (\<lambda>z. name z = name a) ms"
      using ne by (induction ms) auto
    ultimately show ?thesis using ne by simp
  qed
qed

lemma superseding_appended:
  assumes "a \<in> set (first_per_name (filter (\<lambda>m. setting m \<and> add m \<and> name m \<notin> N) ms))"
  shows "superseding ms a = Some a"
proof -
  let ?Q = "\<lambda>m. setting m \<and> add m \<and> name m \<notin> N"
  have "a \<in> set (filter ?Q ms)" using assms first_per_name_subset by blast
  then have na: "name a \<notin> N" by simp
  have "find (\<lambda>m. name m = name a) (filter ?Q ms) = Some a"
    using assms by (rule first_per_name_find)
  moreover have "find (\<lambda>m. name m = name a) (filter ?Q ms) = superseding ms a"
    unfolding superseding_def using na by (induction ms) auto
  ultimately show ?thesis by simp
qed

lemma superseding_cong_name: "name a = name b \<Longrightarrow> superseding ms a = superseding ms b"
  by (simp add: superseding_def)

lemma superseding_idem:
  "superseding ms e = Some m \<Longrightarrow> superseding ms m = Some m"
  using superseding_name [of ms e m] superseding_cong_name [of m e ms] by simp

lemma merge_spec_idem: "merge_spec (merge_spec es ms) ms = merge_spec es ms"
proof -
  let ?R = "\<lambda>e. case superseding ms e of Some m \<Rightarrow> m | None \<Rightarrow> e"
  let ?Q = "\<lambda>m. setting m \<and> add m \<and> name m \<notin> name ` set es"
  let ?K = "map ?R es"
  let ?A = "first_per_name (filter ?Q ms)"
  have m1: "merge_spec es ms = ?K @ ?A" by (simp add: merge_spec_def)
  have K: "map ?R ?K = ?K"
  proof -
    have "?R (?R e) = ?R e" for e
      by (auto split: option.splits dest: superseding_idem)
    then show ?thesis by simp
  qed
  have A: "map ?R ?A = ?A"
    by (rule map_idI) (simp add: superseding_appended)
  have "set (map name ?K) = set (map name es)"
    by (simp only: kept_names)
  then have nK: "name ` set ?K = name ` set es"
    by (simp only: set_map)
  have names: "name ` set (?K @ ?A) = name ` set es \<union> name ` set (filter ?Q ms)"
    using nK first_per_name_names [of "filter ?Q ms"]
    by (simp only: set_append image_Un)
  have "filter (\<lambda>m. setting m \<and> add m \<and> name m \<notin> name ` set (?K @ ?A)) ms = []"
    unfolding names by (auto simp: filter_empty_conv)
  then have "merge_spec (?K @ ?A) ms = map ?R (?K @ ?A)"
    by (simp add: merge_spec_def)
  then show ?thesis using K A m1 by simp
qed

lemma apply_idem: "CModes_apply (CModes_apply c ms) ms = CModes_apply c ms"
proof -
  have "modes (CModes_apply (CModes_apply c ms) ms) = modes (CModes_apply c ms)"
    by (simp add: apply_modes merge_spec_idem)
  then show ?thesis by (simp add: CModes_apply_def)
qed

lemma foldl_apply_distinct:
  "distinct (map name (modes c)) \<Longrightarrow> distinct (map name (modes (foldl CModes_apply c mss)))"
  by (induction mss arbitrary: c) (simp_all add: apply_modes merge_spec_distinct)


subsection \<open>The scan of parse\<close>

lemma parse_loop_out:
  "parse_loop c fs as ad n out = out @ parse_loop c fs as ad n []"
proof (induction fs arbitrary: ad n out)
  case Nil
  then show ?case by simp
next
  case (Cons f fs)
  have step: "parse_loop c fs as a k (out @ [m]) = out @ parse_loop c fs as a k [m]" for a k m
    using Cons.IH [of a k "out @ [m]"] Cons.IH [of a k "[m]"] by simp
  show ?case
    using Cons.IH [of True n out] Cons.IH [of False n out]
    by (auto simp: step split: prod.splits)
qed

lemma parse_loop_sign:
  "is_sign f \<Longrightarrow> parse_loop c (f # fs) as ad n [] = parse_loop c fs as (f = CHR ''+'') n []"
  by (auto simp: is_sign_def)

lemma parse_loop_mode:
  "\<not> is_sign f \<Longrightarrow>
   parse_loop c (f # fs) as ad n [] =
     parsed_mode c as ad n f # parse_loop c fs as ad (next_cursor c as ad n f) []"
  using parse_loop_out [of c fs as ad "Suc n" "[\<lparr>add = ad, name = f, setting = snd (hasArg c ad f), args = as ! n\<rparr>]"]
        parse_loop_out [of c fs as ad n "[\<lparr>add = ad, name = f, setting = snd (hasArg c ad f), args = ''''\<rparr>]"]
  by (auto simp: is_sign_def parsed_mode_def next_cursor_def split: prod.splits)

lemma parse_loop_names:
  "map name (parse_loop c fs as ad n []) = filter (\<lambda>ch. \<not> is_sign ch) fs"
proof (induction fs arbitrary: ad n)
  case Nil
  then show ?case by simp
next
  case (Cons f fs)
  show ?case
  proof (cases "is_sign f")
    case True
    then show ?thesis by (simp add: parse_loop_sign Cons.IH del: parse_loop.simps)
  next
    case False
    then show ?thesis by (simp add: parse_loop_mode Cons.IH parsed_mode_def del: parse_loop.simps)
  qed
qed

lemma polarity_from_sign:
  "is_sign p \<Longrightarrow> polarity_from a (p # pre) = polarity_from (p = CHR ''+'') pre"
  by (simp add: polarity_from_def Let_def)

lemma polarity_from_mode: "\<not> is_sign p \<Longrightarrow> polarity_from a (p # pre) = polarity_from a pre"
  by (simp add: polarity_from_def Let_def)

lemma takes_arg_parsed: "takes_arg c (parsed_mode c as ad n f) = fst (hasArg c ad f)"
  by (simp add: takes_arg_def parsed_mode_def)

lemma parse_loop_position:
  assumes "\<not> is_sign f"
  shows "let out = parse_loop c (pre @ f # post) as ad n [];
             k = length (filter (\<lambda>ch. \<not> is_sign ch) pre);
             j = n + length (filter (takes_arg c) (take k out))
         in k < length out \<and>
            out ! k = parsed_mode c as (polarity_from ad pre) j f"
proof (induction pre arbitrary: ad n)
  case Nil
  show ?case using assms by (simp add: parse_loop_mode polarity_from_def del: parse_loop.simps)
next
  case (Cons p pre)
  show ?case
  proof (cases "is_sign p")
    case True
    then show ?thesis
      using Cons.IH [of "p = CHR ''+''" n] by (simp add: parse_loop_sign polarity_from_sign Let_def del: parse_loop.simps)
  next
    case False
    let ?n' = "next_cursor c as ad n p"
    let ?rest = "parse_loop c (pre @ f # post) as ad ?n' []"
    let ?k = "length (filter (\<lambda>ch. \<not> is_sign ch) pre)"
    let ?cnt = "length (filter (takes_arg c) (take ?k ?rest))"
    have ih: "?k < length ?rest \<and>
              ?rest ! ?k = parsed_mode c as (polarity_from ad pre) (?n' + ?cnt) f"
      using Cons.IH [of ad ?n'] by (simp add: Let_def)
    have args_eq: "parsed_mode c as b (?n' + ?cnt) f
          = parsed_mode c as b (n + (if fst (hasArg c ad p) then 1 else 0) + ?cnt) f" for b
      by (auto simp: parsed_mode_def next_cursor_def)
    show ?thesis
      using False ih args_eq [of "polarity_from ad pre"]
      by (simp add: parse_loop_mode polarity_from_mode Let_def takes_arg_parsed del: parse_loop.simps)
  qed
qed

lemma parse_example:
  assumes "hasArg c True (CHR ''o'') = (True, False)"
      and "hasArg c False (CHR ''v'') = (True, False)"
  shows "CModes_parse c ''+o-v'' [''alice'', ''bob''] =
           [\<lparr>add = True, name = CHR ''o'', setting = False, args = ''alice''\<rparr>,
            \<lparr>add = False, name = CHR ''v'', setting = False, args = ''bob''\<rparr>]"
  using assms by (simp add: CModes_parse_def)

subsection \<open>Classification tables and rendering\<close>

lemma SplitN_comma_head:
  assumes "CHR '','' \<notin> set a"
  shows "SplitN_comma (a @ CHR '','' # rest) (Suc (Suc n)) = a # SplitN_comma rest (Suc n)"
proof -
  have "\<forall>x\<in>set a. x \<noteq> CHR '',''" using assms by blast
  then have t: "takeWhile (\<lambda>ch. ch \<noteq> CHR '','') (a @ CHR '','' # rest) = a"
    by (simp add: takeWhile_tail)
  have "dropWhile (\<lambda>ch. ch \<noteq> CHR '','') (a @ CHR '','' # rest) = CHR '','' # rest"
    using assms by (auto simp: dropWhile_append3)
  with t show ?thesis by simp
qed

lemma SplitN_comma_four:
  assumes "CHR '','' \<notin> set a" "CHR '','' \<notin> set b" "CHR '','' \<notin> set d"
  shows "SplitN_comma (a @ '','' @ b @ '','' @ d @ '','' @ e) 4 = [a, b, d, e]"
proof -
  have four: "(4::nat) = Suc (Suc (Suc (Suc 0)))" by simp
  show ?thesis
    unfolding four using assms by (simp add: SplitN_comma_head del: SplitN_comma.simps(3))
qed

lemma newCModes_buckets:
  assumes "CHR '','' \<notin> set a" "CHR '','' \<notin> set b" "CHR '','' \<notin> set d"
  shows "newCModes (a @ '','' @ b @ '','' @ d @ '','' @ e) p =
           \<lparr>raw = a @ '','' @ b @ '','' @ d @ '','' @ e, modesListArgs = a, modesArgs = b,
            modesSetArgs = d, modesNoArgs = e, prefixes = p, modes = []\<rparr>"
  using SplitN_comma_four [OF assms, of e] by (simp add: newCModes_def pad4_def)

lemma String_loop_eq:
  "String_loop ms out as =
     (out @ concat (map (\<lambda>m. string_of_byte (name m)) ms),
      as @ concat (map (\<lambda>m. if args m = [] then [] else CHR '' '' # args m) ms))"
  by (induction ms arbitrary: out as) auto

lemma string_of_byte_ascii: "of_char b < (128::nat) \<Longrightarrow> string_of_byte b = [b]"
  by (simp add: string_of_byte_def)

lemma concat_ascii_names:
  "\<forall>m\<in>set ms. of_char (name m) < (128::nat) \<Longrightarrow>
   concat (map (\<lambda>m. string_of_byte (name m)) ms) = map name ms"
  by (induction ms) (simp_all add: string_of_byte_ascii)

lemma concat_args_head:
  "concat (map (\<lambda>m. if args m = [] then [] else CHR '' '' # args m) ms) = []
   \<or> hd (concat (map (\<lambda>m. if args m = [] then [] else CHR '' '' # args m) ms)) = CHR '' ''"
  by (induction ms) auto

lemma takeWhile_before_space:
  assumes "rest = [] \<or> hd rest = CHR '' ''"
  shows "set (takeWhile (\<lambda>ch. ch \<noteq> CHR '' '') (out @ rest)) \<subseteq> set out"
proof (cases "\<forall>x\<in>set out. x \<noteq> CHR '' ''")
  case True
  then have "takeWhile (\<lambda>ch. ch \<noteq> CHR '' '') (out @ rest)
             = out @ takeWhile (\<lambda>ch. ch \<noteq> CHR '' '') rest"
    by (simp add: takeWhile_append2)
  moreover have "takeWhile (\<lambda>ch. ch \<noteq> CHR '' '') rest = []"
    using assms by (cases rest) auto
  ultimately show ?thesis by simp
next
  case False
  then obtain x where "x \<in> set out" "\<not> x \<noteq> CHR '' ''" by blast
  then have "takeWhile (\<lambda>ch. ch \<noteq> CHR '' '') (out @ rest)
             = takeWhile (\<lambda>ch. ch \<noteq> CHR '' '') out"
    by (rule takeWhile_append1)
  then show ?thesis using set_takeWhileD by fastforce
qed

lemma Split_space_head:
  "\<exists>rest. Split_space s = takeWhile (\<lambda>ch. ch \<noteq> CHR '' '') s # rest"
proof (cases "CHR '' '' \<in> set s")
  case True
  then show ?thesis by (subst Split_space.simps) simp
next
  case False
  then have "\<forall>x\<in>set s. x \<noteq> CHR '' ''" by blast
  then have eq: "takeWhile (\<lambda>ch. ch \<noteq> CHR '' '') s = s" by (simp add: takeWhile_eq_all_conv)
  show ?thesis using False by (subst Split_space.simps) (simp add: eq)
qed

lemma rendered_flags:
  assumes "Split_space (CModes_String c) = flags # as"
      and "\<forall>m\<in>set (modes c). of_char (name m) < (128::nat)"
  shows "set flags \<subseteq> insert (CHR ''+'') (name ` set (modes c))"
proof -
  obtain rest where "Split_space (CModes_String c)
      = takeWhile (\<lambda>ch. ch \<noteq> CHR '' '') (CModes_String c) # rest"
    using Split_space_head by blast
  with assms have f: "flags = takeWhile (\<lambda>ch. ch \<noteq> CHR '' '') (CModes_String c)" by simp
  let ?out = "(if length (modes c) > 0 then ''+'' else '''') @ map name (modes c)"
  let ?rest = "concat (map (\<lambda>m. if args m = [] then [] else CHR '' '' # args m) (modes c))"
  have "CModes_String c = ?out @ ?rest"
    by (simp add: CModes_String_def String_loop_eq concat_ascii_names [OF assms(2)])
  then have "set flags \<subseteq> set ?out"
    using f takeWhile_before_space [OF concat_args_head, of ?out "modes c"] by simp
  then show ?thesis by auto
qed

lemma parse_names_subset:
  "name ` set (CModes_parse c flags as) \<subseteq> set flags - {CHR ''+'', CHR ''-''}"
proof -
  have "set (map name (CModes_parse c flags as)) = set (filter (\<lambda>ch. \<not> is_sign ch) flags)"
    by (simp only: CModes_parse_def parse_loop_names)
  then show ?thesis by (auto simp: is_sign_def)
qed

lemma merge_spec_known_names:
  assumes "name ` set ms \<subseteq> name ` set es"
  shows "map name (merge_spec es ms) = map name es"
proof -
  have "filter (\<lambda>m. setting m \<and> add m \<and> name m \<notin> name ` set es) ms = []"
    using assms by (auto simp: filter_empty_conv)
  then show ?thesis
    using kept_names [of ms es] by (simp add: merge_spec_def del: map_map)
qed

lemma roundtrip_names:
  assumes "\<forall>m\<in>set (modes c). of_char (name m) < (128::nat)"
  shows "map name (modes (roundtrip c)) = map name (modes c)"
proof (cases "Split_space (CModes_String c)")
  case Nil
  then show ?thesis by (simp add: roundtrip_def)
next
  case (Cons flags as)
  have "name ` set (CModes_parse c flags as) \<subseteq> name ` set (modes c)"
    using rendered_flags [OF Cons assms] parse_names_subset [of c flags as] by auto
  then show ?thesis
    using Cons by (simp add: roundtrip_def apply_modes merge_spec_known_names)
qed

section \<open>The claims about the channel modes\<close>

text \<open>
  C1. For every stored mode set and every list of incoming changes, \<^verbatim>\<open>apply\<close> builds
  the new list by the three rules of \<open>merge_spec\<close>: (1) every stored entry keeps its
  place, and is replaced by the first incoming change that is a setting, an addition and
  of its mode character when there is one; (2) behind them come the incoming changes
  that are settings and additions and whose mode character is not yet in the list;
  (3) every entry of the result is a stored entry or an incoming change that is a setting
  and an addition. In particular a list of removals changes nothing: \<^verbatim>\<open>-x\<close> leaves
  the stored entry of \<^verbatim>\<open>x\<close> where it is.
\<close>

theorem CModes_apply_merge:
  "modes (CModes_apply c ms) = merge_spec (modes c) ms \<and>
   (\<forall>m\<in>set (modes (CModes_apply c ms)).
      m \<in> set (modes c) \<or> (m \<in> set ms \<and> setting m \<and> add m)) \<and>
   ((\<forall>r\<in>set rs. \<not> add r) \<longrightarrow> CModes_apply c rs = c) \<and>
   modes (CModes_apply c [\<lparr>add = False, name = x, setting = True, args = a\<rparr>]) = modes c"
proof -
  have one: "modes (CModes_apply c ms) = merge_spec (modes c) ms"
    by (rule apply_modes)
  have two: "\<forall>m\<in>set (modes (CModes_apply c ms)).
               m \<in> set (modes c) \<or> (m \<in> set ms \<and> setting m \<and> add m)"
    unfolding one using merge_spec_origin by blast
  have three: "CModes_apply c rs = c" if "\<forall>r\<in>set rs. \<not> add r" for rs
  proof -
    have "modes (CModes_apply c rs) = modes c"
      using that by (simp add: apply_modes merge_spec_removals)
    then show ?thesis by (simp add: CModes_apply_def)
  qed
  have four: "modes (CModes_apply c [\<lparr>add = False, name = x, setting = True, args = a\<rparr>])
              = modes c"
    using three [of "[\<lparr>add = False, name = x, setting = True, args = a\<rparr>]"] by simp
  show ?thesis using one two three four by blast
qed

theorem CModes_apply_merge_witness:
  "modes (CModes_apply
      \<lparr>raw = ''b,k,l,imnpst'', modesListArgs = ''b'', modesArgs = ''k'', modesSetArgs = ''l'',
       modesNoArgs = ''imnpst'', prefixes = ''ov'',
       modes = [\<lparr>add = True, name = CHR ''k'', setting = True, args = ''old''\<rparr>,
                \<lparr>add = True, name = CHR ''m'', setting = True, args = ''''\<rparr>]\<rparr>
      [\<lparr>add = True, name = CHR ''o'', setting = False, args = ''alice''\<rparr>,
       \<lparr>add = False, name = CHR ''m'', setting = True, args = ''''\<rparr>,
       \<lparr>add = True, name = CHR ''k'', setting = True, args = ''new''\<rparr>,
       \<lparr>add = True, name = CHR ''s'', setting = True, args = ''''\<rparr>,
       \<lparr>add = True, name = CHR ''s'', setting = True, args = ''again''\<rparr>])
   = [\<lparr>add = True, name = CHR ''k'', setting = True, args = ''new''\<rparr>,
      \<lparr>add = True, name = CHR ''m'', setting = True, args = ''''\<rparr>,
      \<lparr>add = True, name = CHR ''s'', setting = True, args = ''''\<rparr>]"
  using CModes_apply_merge [of
      "\<lparr>raw = ''b,k,l,imnpst'', modesListArgs = ''b'', modesArgs = ''k'', modesSetArgs = ''l'',
       modesNoArgs = ''imnpst'', prefixes = ''ov'',
       modes = [\<lparr>add = True, name = CHR ''k'', setting = True, args = ''old''\<rparr>,
                \<lparr>add = True, name = CHR ''m'', setting = True, args = ''''\<rparr>]\<rparr>"
      "[\<lparr>add = True, name = CHR ''o'', setting = False, args = ''alice''\<rparr>,
       \<lparr>add = False, name = CHR ''m'', setting = True, args = ''''\<rparr>,
       \<lparr>add = True, name = CHR ''k'', setting = True, args = ''new''\<rparr>,
       \<lparr>add = True, name = CHR ''s'', setting = True, args = ''''\<rparr>,
       \<lparr>add = True, name = CHR ''s'', setting = True, args = ''again''\<rparr>]"
      "[]" "CHR ''m''" "''''"]
  by (simp add: merge_spec_def superseding_def)

text \<open>
  C3. \<^verbatim>\<open>parse\<close> scans the flags from left to right. The signs give no mode and every
  other character gives one, in order. For every flag \<open>f\<close> that is not a sign, with
  \<open>pre\<close> the flags before it: its mode is the \<open>k\<close>-th of the output, \<open>k\<close> the number
  of flags in \<open>pre\<close> that are not signs; it has the polarity of the last sign in
  \<open>pre\<close> (and is an addition when there is none); and when \<^verbatim>\<open>hasArg\<close> reports an
  argument for it, it gets argument number \<open>n\<close>, \<open>n\<close> the number of modes before
  it for which \<^verbatim>\<open>hasArg\<close> reports one, as long as there are that many arguments, and the
  empty string otherwise. In particular \<^verbatim>\<open>+o-v\<close> with \<^verbatim>\<open>alice\<close>, \<^verbatim>\<open>bob\<close>, where
  \<^verbatim>\<open>hasArg\<close> classifies \<^verbatim>\<open>o\<close> and \<^verbatim>\<open>v\<close> as permission modes.
\<close>

theorem CModes_parse_by_position:
  "map name (CModes_parse c flags as) = filter (\<lambda>ch. \<not> is_sign ch) flags \<and>
   (\<forall>pre f post. flags = pre @ f # post \<and> \<not> is_sign f \<longrightarrow>
      (let out = CModes_parse c flags as;
           k = length (filter (\<lambda>ch. \<not> is_sign ch) pre);
           n = length (filter (takes_arg c) (take k out));
           ad = polarity_from True pre
       in k < length out \<and>
          out ! k = \<lparr>add = ad, name = f, setting = snd (hasArg c ad f),
                     args = (if fst (hasArg c ad f) \<and> n < length as then as ! n else '''')\<rparr>)) \<and>
   (hasArg c True (CHR ''o'') = (True, False) \<and> hasArg c False (CHR ''v'') = (True, False) \<longrightarrow>
      CModes_parse c ''+o-v'' [''alice'', ''bob''] =
        [\<lparr>add = True, name = CHR ''o'', setting = False, args = ''alice''\<rparr>,
         \<lparr>add = False, name = CHR ''v'', setting = False, args = ''bob''\<rparr>])"
proof -
  have names: "map name (CModes_parse c flags as) = filter (\<lambda>ch. \<not> is_sign ch) flags"
    by (simp only: CModes_parse_def parse_loop_names)
  have pos: "let out = CModes_parse c flags as;
                 k = length (filter (\<lambda>ch. \<not> is_sign ch) pre);
                 n = length (filter (takes_arg c) (take k out));
                 ad = polarity_from True pre
             in k < length out \<and>
                out ! k = \<lparr>add = ad, name = f, setting = snd (hasArg c ad f),
                     args = (if fst (hasArg c ad f) \<and> n < length as then as ! n else '''')\<rparr>"
    if "flags = pre @ f # post \<and> \<not> is_sign f" for pre f post
    using that parse_loop_position [of f c pre post as True 0]
    by (simp add: CModes_parse_def Let_def parsed_mode_def del: parse_loop.simps)
  show ?thesis using names pos parse_example [of c] by blast
qed

theorem CModes_parse_by_position_witness:
  "CModes_parse (newCModes ''b,k,l,imnpst'' ''ov'') ''+o-v'' [''alice'', ''bob''] =
     [\<lparr>add = True, name = CHR ''o'', setting = False, args = ''alice''\<rparr>,
      \<lparr>add = False, name = CHR ''v'', setting = False, args = ''bob''\<rparr>] \<and>
   CModes_parse (newCModes ''b,k,l,imnpst'' ''ov'') ''+o-v'' [''alice'', ''bob''] ! 1 =
     \<lparr>add = False, name = CHR ''v'', setting = False, args = ''bob''\<rparr>"
proof -
  let ?c = "newCModes ''b,k,l,imnpst'' ''ov''"
  have c: "?c = \<lparr>raw = ''b,k,l,imnpst'', modesListArgs = ''b'', modesArgs = ''k'',
                  modesSetArgs = ''l'', modesNoArgs = ''imnpst'', prefixes = ''ov'',
                  modes = []\<rparr>"
    by (simp add: newCModes_def pad4_def numeral_eq_Suc)
  have o: "hasArg ?c True (CHR ''o'') = (True, False)"
    unfolding c by (simp add: hasArg_def)
  have v: "hasArg ?c False (CHR ''v'') = (True, False)"
    unfolding c by (simp add: hasArg_def)
  have split: "''+o-v'' = ''+o-'' @ CHR ''v'' # ''''" by simp
  have nosign: "\<not> is_sign (CHR ''v'')" by (simp add: is_sign_def)
  from CModes_parse_by_position [of ?c "''+o-v''" "[''alice'', ''bob'']"] o v
  have ex: "CModes_parse ?c ''+o-v'' [''alice'', ''bob''] =
        [\<lparr>add = True, name = CHR ''o'', setting = False, args = ''alice''\<rparr>,
         \<lparr>add = False, name = CHR ''v'', setting = False, args = ''bob''\<rparr>]"
    by blast
  then show ?thesis by simp
qed

text \<open>
  C7. \<^verbatim>\<open>apply\<close> is idempotent: merging a list of changes that are all settings and
  additions a second time gives the mode set that merging it once gave, entry by entry.
\<close>

theorem CModes_apply_idempotent:
  "\<forall>m\<in>set ms. setting m \<and> add m \<Longrightarrow>
   CModes_apply (CModes_apply c ms) ms = CModes_apply c ms"
  by (rule apply_idem)

theorem CModes_apply_idempotent_witness:
  "CModes_apply (CModes_apply
      \<lparr>raw = ''b,k,l,imnpst'', modesListArgs = ''b'', modesArgs = ''k'', modesSetArgs = ''l'',
       modesNoArgs = ''imnpst'', prefixes = ''ov'',
       modes = [\<lparr>add = True, name = CHR ''k'', setting = True, args = ''old''\<rparr>,
                \<lparr>add = True, name = CHR ''m'', setting = True, args = ''''\<rparr>]\<rparr>
      [\<lparr>add = True, name = CHR ''k'', setting = True, args = ''new''\<rparr>,
       \<lparr>add = True, name = CHR ''s'', setting = True, args = ''''\<rparr>])
      [\<lparr>add = True, name = CHR ''k'', setting = True, args = ''new''\<rparr>,
       \<lparr>add = True, name = CHR ''s'', setting = True, args = ''''\<rparr>]
   = \<lparr>raw = ''b,k,l,imnpst'', modesListArgs = ''b'', modesArgs = ''k'', modesSetArgs = ''l'',
       modesNoArgs = ''imnpst'', prefixes = ''ov'',
       modes = [\<lparr>add = True, name = CHR ''k'', setting = True, args = ''new''\<rparr>,
                \<lparr>add = True, name = CHR ''m'', setting = True, args = ''''\<rparr>,
                \<lparr>add = True, name = CHR ''s'', setting = True, args = ''''\<rparr>]\<rparr>"
proof -
  let ?ms = "[\<lparr>add = True, name = CHR ''k'', setting = True, args = ''new''\<rparr>,
              \<lparr>add = True, name = CHR ''s'', setting = True, args = ''''\<rparr>]"
  have h: "\<forall>m\<in>set ?ms. setting m \<and> add m" by simp
  show ?thesis
    unfolding CModes_apply_idempotent [OF h] by (simp add: CModes_apply_def)
qed

text \<open>
  C9. Every mode set that is reached from \<^verbatim>\<open>newCModes\<close> by merging lists of changes,
  one after the other, stores at most one entry per mode character.
\<close>

theorem CModes_apply_distinct_names:
  "distinct (map name (modes (foldl CModes_apply (newCModes channelModes userPrefixes) mss)))"
  by (rule foldl_apply_distinct) (simp add: newCModes_def Let_def)

theorem CModes_apply_distinct_names_witness:
  "distinct (map name (modes (foldl CModes_apply (newCModes ''b,k,l,imnpst'' ''ov'')
      [[\<lparr>add = True, name = CHR ''k'', setting = True, args = ''a''\<rparr>,
        \<lparr>add = True, name = CHR ''k'', setting = True, args = ''b''\<rparr>,
        \<lparr>add = True, name = CHR ''m'', setting = True, args = ''''\<rparr>],
       [\<lparr>add = False, name = CHR ''m'', setting = True, args = ''''\<rparr>,
        \<lparr>add = True, name = CHR ''k'', setting = True, args = ''c''\<rparr>,
        \<lparr>add = True, name = CHR ''s'', setting = True, args = ''''\<rparr>]]))) \<and>
   map name (modes (foldl CModes_apply (newCModes ''b,k,l,imnpst'' ''ov'')
      [[\<lparr>add = True, name = CHR ''k'', setting = True, args = ''a''\<rparr>,
        \<lparr>add = True, name = CHR ''k'', setting = True, args = ''b''\<rparr>,
        \<lparr>add = True, name = CHR ''m'', setting = True, args = ''''\<rparr>],
       [\<lparr>add = False, name = CHR ''m'', setting = True, args = ''''\<rparr>,
        \<lparr>add = True, name = CHR ''k'', setting = True, args = ''c''\<rparr>,
        \<lparr>add = True, name = CHR ''s'', setting = True, args = ''''\<rparr>]])) = ''kms''"
  using CModes_apply_distinct_names [of "''b,k,l,imnpst''" "''ov''"
      "[[\<lparr>add = True, name = CHR ''k'', setting = True, args = ''a''\<rparr>,
        \<lparr>add = True, name = CHR ''k'', setting = True, args = ''b''\<rparr>,
        \<lparr>add = True, name = CHR ''m'', setting = True, args = ''''\<rparr>],
       [\<lparr>add = False, name = CHR ''m'', setting = True, args = ''''\<rparr>,
        \<lparr>add = True, name = CHR ''k'', setting = True, args = ''c''\<rparr>,
        \<lparr>add = True, name = CHR ''s'', setting = True, args = ''''\<rparr>]]"]
  by (simp add: CModes_apply_def newCModes_def pad4_def numeral_eq_Suc)

text \<open>
  C4, as amended. For a classification string \<^verbatim>\<open>A,B,C,D\<close> (no comma in \<^verbatim>\<open>A\<close>,
  \<^verbatim>\<open>B\<close>, \<^verbatim>\<open>C\<close>; \<^verbatim>\<open>D\<close> disjoint from the three) and every mode character: in
  \<^verbatim>\<open>A\<close>, \<^verbatim>\<open>hasArg\<close> on an addition reports an argument and no setting; in \<^verbatim>\<open>D\<close>
  or in no bucket, and not a permission-prefix character, no argument and a setting; a
  permission-prefix character in no bucket, an argument and no setting. The tables are
  those that \<^verbatim>\<open>newCModes\<close> makes of the string.
\<close>

theorem hasArg_classes:
  assumes "CHR '','' \<notin> set a \<union> set b \<union> set d"
      and "set a \<inter> set e = {}" and "set b \<inter> set e = {}" and "set d \<inter> set e = {}"
  shows "(ch \<in> set a \<longrightarrow>
            hasArg (newCModes (a @ '','' @ b @ '','' @ d @ '','' @ e) p) True ch = (True, False)) \<and>
         ((ch \<in> set e \<or> ch \<notin> set a \<union> set b \<union> set d \<union> set e) \<and> ch \<notin> set p \<longrightarrow>
            hasArg (newCModes (a @ '','' @ b @ '','' @ d @ '','' @ e) p) True ch = (False, True)) \<and>
         (ch \<in> set p \<and> ch \<notin> set a \<union> set b \<union> set d \<union> set e \<longrightarrow>
            hasArg (newCModes (a @ '','' @ b @ '','' @ d @ '','' @ e) p) True ch = (True, False))"
proof -
  have c: "CHR '','' \<notin> set a" "CHR '','' \<notin> set b" "CHR '','' \<notin> set d" using assms(1) by auto
  show ?thesis
    unfolding newCModes_buckets [OF c] using assms(2-4) by (auto simp: hasArg_def)
qed

theorem hasArg_classes_witness:
  "hasArg (newCModes ''b,k,l,imnpst'' ''ov'') True (CHR ''b'') = (True, False) \<and>
   hasArg (newCModes ''b,k,l,imnpst'' ''ov'') True (CHR ''m'') = (False, True) \<and>
   hasArg (newCModes ''b,k,l,imnpst'' ''ov'') True (CHR ''z'') = (False, True) \<and>
   hasArg (newCModes ''b,k,l,imnpst'' ''ov'') True (CHR ''o'') = (True, False)"
  using hasArg_classes [of "''b''" "''k''" "''l''" "''imnpst''" "CHR ''b''" "''ov''"]
        hasArg_classes [of "''b''" "''k''" "''l''" "''imnpst''" "CHR ''m''" "''ov''"]
        hasArg_classes [of "''b''" "''k''" "''l''" "''imnpst''" "CHR ''z''" "''ov''"]
        hasArg_classes [of "''b''" "''k''" "''l''" "''imnpst''" "CHR ''o''" "''ov''"]
  by simp

text \<open>
  C4 as it was stated fails for a character of \<^verbatim>\<open>D\<close> that is a permission-prefix
  character as well: \<^verbatim>\<open>hasArg\<close> never reads \<^verbatim>\<open>modesNoArgs\<close>, and the prefixes come
  before the default. The buckets of \<^verbatim>\<open>b,k,l,o\<close> are disjoint and \<^verbatim>\<open>o\<close> is in
  \<^verbatim>\<open>D\<close>.
\<close>

theorem hasArg_never_arg_bucket_counterexample:
  "CHR ''o'' \<in> set (modesNoArgs (newCModes ''b,k,l,o'' ''o'')) \<and>
   hasArg (newCModes ''b,k,l,o'' ''o'') True (CHR ''o'') = (True, False) \<and>
   hasArg (newCModes ''b,k,l,o'' ''o'') True (CHR ''o'') \<noteq> (False, True)"
  by (simp add: newCModes_def pad4_def hasArg_def numeral_eq_Suc)

text \<open>
  C8, as amended. A mode set that \<^verbatim>\<open>apply\<close> produced and whose mode characters are
  all below \<^verbatim>\<open>0x80\<close> is rendered by \<^verbatim>\<open>String\<close>, the line is split into flags and
  arguments, parsed with the tables of the set and merged into the set: the set of mode
  characters is the one it was.
\<close>

theorem roundtrip_mode_characters:
  assumes "\<forall>m\<in>set (modes (CModes_apply c0 ms)). of_char (name m) < (128::nat)"
  shows "name ` set (modes (roundtrip (CModes_apply c0 ms)))
         = name ` set (modes (CModes_apply c0 ms))"
proof -
  have "set (map name (modes (roundtrip (CModes_apply c0 ms))))
        = set (map name (modes (CModes_apply c0 ms)))"
    by (simp only: roundtrip_names [OF assms])
  then show ?thesis by (simp only: set_map)
qed

theorem roundtrip_mode_characters_witness:
  "name ` set (modes (roundtrip (CModes_apply (newCModes ''b,k,l,imnpst'' ''ov'')
       [\<lparr>add = True, name = CHR ''k'', setting = True, args = ''secret''\<rparr>,
        \<lparr>add = True, name = CHR ''m'', setting = True, args = ''''\<rparr>])))
   = {CHR ''k'', CHR ''m''}"
proof -
  let ?c = "CModes_apply (newCModes ''b,k,l,imnpst'' ''ov'')
       [\<lparr>add = True, name = CHR ''k'', setting = True, args = ''secret''\<rparr>,
        \<lparr>add = True, name = CHR ''m'', setting = True, args = ''''\<rparr>]"
  have m: "modes ?c = [\<lparr>add = True, name = CHR ''k'', setting = True, args = ''secret''\<rparr>,
                       \<lparr>add = True, name = CHR ''m'', setting = True, args = ''''\<rparr>]"
    by (simp add: CModes_apply_def newCModes_def pad4_def numeral_eq_Suc)
  have h: "\<forall>m\<in>set (modes ?c). of_char (name m) < (128::nat)"
    unfolding m by simp
  show ?thesis
    using roundtrip_mode_characters [OF h] by (simp add: m)
qed

text \<open>
  C8 as it was stated fails for a mode character from \<^verbatim>\<open>0x80\<close> on: \<^verbatim>\<open>String\<close>
  renders the byte \<^verbatim>\<open>0xE9\<close> as the two bytes \<^verbatim>\<open>0xC3 0xA9\<close>, \<^verbatim>\<open>parse\<close> reads two
  modes from them, which no table knows, and \<^verbatim>\<open>apply\<close> stores both as settings.
\<close>

theorem roundtrip_high_byte_counterexample:
  "map name (modes (CModes_apply (newCModes ''b,k,l,imnpst'' ''ov'')
       [\<lparr>add = True, name = CHR 0xE9, setting = True, args = ''''\<rparr>])) = [CHR 0xE9] \<and>
   CModes_String (CModes_apply (newCModes ''b,k,l,imnpst'' ''ov'')
       [\<lparr>add = True, name = CHR 0xE9, setting = True, args = ''''\<rparr>])
     = [CHR ''+'', CHR 0xC3, CHR 0xA9] \<and>
   map name (modes (roundtrip (CModes_apply (newCModes ''b,k,l,imnpst'' ''ov'')
       [\<lparr>add = True, name = CHR 0xE9, setting = True, args = ''''\<rparr>])))
     = [CHR 0xE9, CHR 0xC3, CHR 0xA9] \<and>
   name ` set (modes (roundtrip (CModes_apply (newCModes ''b,k,l,imnpst'' ''ov'')
       [\<lparr>add = True, name = CHR 0xE9, setting = True, args = ''''\<rparr>])))
     \<noteq> name ` set (modes (CModes_apply (newCModes ''b,k,l,imnpst'' ''ov'')
       [\<lparr>add = True, name = CHR 0xE9, setting = True, args = ''''\<rparr>]))"
proof -
  let ?c = "\<lparr>raw = ''b,k,l,imnpst'', modesListArgs = ''b'', modesArgs = ''k'',
             modesSetArgs = ''l'', modesNoArgs = ''imnpst'', prefixes = ''ov'',
             modes = [\<lparr>add = True, name = CHR 0xE9, setting = True, args = ''''\<rparr>]\<rparr>"
  have byte: "string_of_byte (CHR 0xE9) = [CHR 0xC3, CHR 0xA9]"
    by (simp add: string_of_byte_def char_of_def bit_Suc_0_iff)
  have new: "newCModes ''b,k,l,imnpst'' ''ov'' =
               \<lparr>raw = ''b,k,l,imnpst'', modesListArgs = ''b'', modesArgs = ''k'',
                modesSetArgs = ''l'', modesNoArgs = ''imnpst'', prefixes = ''ov'',
                modes = []\<rparr>"
    by (simp add: newCModes_def pad4_def numeral_eq_Suc)
  have merged: "CModes_apply (newCModes ''b,k,l,imnpst'' ''ov'')
                  [\<lparr>add = True, name = CHR 0xE9, setting = True, args = ''''\<rparr>] = ?c"
    unfolding new by (simp add: CModes_apply_def)
  have rendered: "CModes_String ?c = [CHR ''+'', CHR 0xC3, CHR 0xA9]"
    by (simp add: CModes_String_def byte)
  have fields: "Split_space [CHR ''+'', CHR 0xC3, CHR 0xA9] = [[CHR ''+'', CHR 0xC3, CHR 0xA9]]"
    by (subst Split_space.simps) simp
  have parsed: "CModes_parse ?c [CHR ''+'', CHR 0xC3, CHR 0xA9] [] =
                  [\<lparr>add = True, name = CHR 0xC3, setting = True, args = ''''\<rparr>,
                   \<lparr>add = True, name = CHR 0xA9, setting = True, args = ''''\<rparr>]"
    by (simp add: CModes_parse_def hasArg_def)
  have again: "modes (roundtrip ?c) =
                 [\<lparr>add = True, name = CHR 0xE9, setting = True, args = ''''\<rparr>,
                  \<lparr>add = True, name = CHR 0xC3, setting = True, args = ''''\<rparr>,
                  \<lparr>add = True, name = CHR 0xA9, setting = True, args = ''''\<rparr>]"
    by (simp add: roundtrip_def rendered fields parsed CModes_apply_def)
  show ?thesis
    unfolding merged by (simp add: rendered again)
qed

section \<open>Properties of the client\<close>

lemma dials_emit: "dials (emit c e) = dials c + (if is_Dial e then 1 else 0)"
  by (simp add: dials_def emit_def)

lemma Config_emit: "Config (emit c e) = Config c"
  by (simp add: emit_def)

lemma state_emit: "state (emit c e) = state c"
  by (simp add: emit_def)

lemma tries_emit: "tries (emit c e) = tries c"
  by (simp add: emit_def)

lemma trace_emit: "trace (emit c e) = trace c @ [e]"
  by (simp add: emit_def)

lemma dials_update [simp]:
  "dials (c\<lparr>state := s\<rparr>) = dials c"
  "dials (c\<lparr>Config := g\<rparr>) = dials c"
  "dials (c\<lparr>tries := t\<rparr>) = dials c"
  "dials (c\<lparr>Callbacks := cb\<rparr>) = dials c"
  by (simp_all add: dials_def)

lemma Send_facts:
  "dials (snd (Send w c e)) = dials c"
  "Config (snd (Send w c e)) = Config c"
  "state (snd (Send w c e)) = state c"
  "tries (snd (Send w c e)) = tries c"
  "Callbacks (snd (Send w c e)) = Callbacks c"
  "trace (snd (Send w c e)) = trace c @ [Encode e]"
  by (simp_all add: Send_def Let_def dials_def emit_def)

lemma Quit_facts:
  "dials (Quit w c m) = dials c"
  "Config (Quit w c m) = Config c"
  "tries (Quit w c m) = tries c"
  "state (Quit w c m) = (state c)\<lparr>hasQuit := False\<rparr>"
  by (simp_all add: Quit_def Let_def Send_def dials_emit emit_def dials_def)

lemma send_each_facts:
  "dials (snd (send_each w c es)) = dials c \<and>
   Config (snd (send_each w c es)) = Config c \<and>
   state (snd (send_each w c es)) = state c"
proof (induction es arbitrary: c)
  case Nil
  then show ?case by simp
next
  case (Cons e es)
  show ?case
  proof (cases "Send w c e")
    case (Pair r c')
    have "dials c' = dials c" "Config c' = Config c" "state c' = state c"
      using Send_facts [of w c e] Pair by simp_all
    then show ?thesis
      using Cons.IH [of c'] by (cases r) (simp_all add: Pair)
  qed
qed

lemma Reconnect_loop_facts:
  "dials (Reconnect_loop err c) = dials c \<and>
   Config (Reconnect_loop err c) = Config c \<and>
   (err \<noteq> None \<longrightarrow> tries (Reconnect_loop err c) = max (tries c) (MaxRetries (Config c)))"
proof (induction err c rule: Reconnect_loop.induct)
  case (1 err c)
  show ?case
  proof (cases "err \<noteq> None \<and> tries c < MaxRetries (Config c)")
    case True
    then show ?thesis
      using 1 by (subst (1 2 3) Reconnect_loop.simps) (auto simp: dials_def emit_def)
  next
    case False
    then show ?thesis by (subst (1 2 3) Reconnect_loop.simps) auto
  qed
qed


lemma Connect_dial_fails:
  assumes "valid_config w (Config c)" and "\<not> Conn (Config c)" and "\<not> dial_ok w (dials c)"
  shows "Connect w c =
           (Some TransportError,
            emit (c\<lparr>state := newState\<rparr>)
              (Dial (TLSConfig (Config c)) (Server (Config c)) (Port (Config c))))"
  using assms by (auto simp: Connect_def valid_config_def Let_def dials_def)

lemma Connect_handshake_dials: "dials (snd (Connect_handshake w c)) = dials c"
proof -
  obtain events c1 where cm: "connectMessages c = (events, c1)" by force
  then have c1: "dials c1 = dials c"
    by (auto simp: connectMessages_def Let_def split: if_splits)
  obtain r c2 where se: "send_each w c1 events = (r, c2)" by force
  then have "dials c2 = dials c1" using send_each_facts [of w c1 events] by simp
  then show ?thesis
    using cm se c1 by (cases r) (simp_all add: Connect_handshake_def Let_def dials_emit)
qed

lemma Connect_dials: "dials (snd (Connect w c)) \<le> dials c + 1"
  by (simp add: Connect_def Let_def Connect_handshake_dials dials_emit)


lemma valid_config_delay [simp]:
  "valid_config w (cfg\<lparr>ReconnectDelay := d\<rparr>) = valid_config w cfg"
  by (simp add: valid_config_def)

lemma Reconnect_prepare_facts:
  "dials (Reconnect_prepare w c) = dials c"
  "valid_config w (Config (Reconnect_prepare w c)) = valid_config w (Config c)"
  "MaxRetries (Config (Reconnect_prepare w c)) = MaxRetries (Config c)"
  "Conn (Config (Reconnect_prepare w c)) = Conn (Config c)"
  "ReconnectDelay (Config (Reconnect_prepare w c)) = max (ReconnectDelay (Config c)) (10 * Second)"
  "tries (Reconnect_prepare w c) = tries c"
  by (simp_all add: Reconnect_prepare_def Let_def Quit_facts)

lemma Reconnect_retry_dials: "dials (snd (Reconnect_retry w c)) \<le> dials c + 1"
proof -
  obtain err c5 where C: "Connect w (emit c (Sleep (ReconnectDelay (Config c)))) = (err, c5)"
    by force
  have "dials c5 \<le> dials c + 1"
    using Connect_dials [of w "emit c (Sleep (ReconnectDelay (Config c)))"] C
    by (simp add: dials_emit)
  then show ?thesis
    using C by (simp add: Reconnect_retry_def Let_def Stop_def dials_emit Reconnect_loop_facts)
qed

lemma Reconnect_dials: "dials (snd (Reconnect w c)) \<le> dials c + 1"
  using Reconnect_retry_dials [of w "Reconnect_prepare w (c\<lparr>state := (state c)\<lparr>reconnecting := True\<rparr>\<rparr>)"]
  by (simp add: Reconnect_def Let_def Reconnect_prepare_facts dials_emit)

lemma Reconnect_retry_dial_fails:
  assumes "valid_config w (Config c)" and "\<not> Conn (Config c)" and "\<forall>k. \<not> dial_ok w k"
  shows "fst (Reconnect_retry w c) = Some TransportError \<and>
         dials (snd (Reconnect_retry w c)) = dials c + 1 \<and>
         last (trace (snd (Reconnect_retry w c))) = StopSignal \<and>
         tries (snd (Reconnect_retry w c)) = max (tries c) (MaxRetries (Config c))"
proof -
  let ?c4 = "emit c (Sleep (ReconnectDelay (Config c)))"
  let ?c5 = "emit (?c4\<lparr>state := newState\<rparr>)
               (Dial (TLSConfig (Config ?c4)) (Server (Config ?c4)) (Port (Config ?c4)))"
  have C: "Connect w ?c4 = (Some TransportError, ?c5)"
    using assms by (intro Connect_dial_fails) (simp_all add: Config_emit)
  have d: "dials ?c5 = dials c + 1" by (simp add: dials_emit)
  have t: "tries ?c5 = tries c" "Config ?c5 = Config c" by (simp_all add: emit_def)
  show ?thesis
    using C d t
    by (simp add: Reconnect_retry_def Let_def Stop_def trace_emit dials_emit
          Reconnect_loop_facts tries_emit)
qed

lemma Connect_valid_opens:
  assumes "valid_config w (Config c)" and "\<not> Conn (Config c)"
  shows "dials (snd (Connect w c)) = dials c + 1"
  using assms
  by (simp add: Connect_def valid_config_def Let_def Connect_handshake_dials dials_emit)

lemma connectMessages_facts:
  "state (snd (connectMessages c)) = state c"
  "Config.Nick (Config (snd (connectMessages c))) = Config.Nick (Config c)"
  "DisableTracking (Config (snd (connectMessages c))) = DisableTracking (Config c)"
  by (simp_all add: connectMessages_def Let_def)

lemma Connect_handshake_nick:
  "nick (state (snd (Connect_handshake w c))) = nick (state c) \<and>
   Config.Nick (Config (snd (Connect_handshake w c))) = Config.Nick (Config c)"
proof -
  obtain events c1 where cm: "connectMessages c = (events, c1)" by force
  then have c1: "state c1 = state c" "Config.Nick (Config c1) = Config.Nick (Config c)"
    using connectMessages_facts [of c] by simp_all
  obtain r c2 where se: "send_each w c1 events = (r, c2)" by force
  then have "state c2 = state c1" "Config c2 = Config c1"
    using send_each_facts [of w c1 events] by simp_all
  then show ?thesis
    using cm se c1 by (cases r) (simp_all add: Connect_handshake_def Let_def emit_def)
qed

lemma Connect_success_nick:
  assumes "fst (Connect w c) = None"
  shows "nick (state (snd (Connect w c))) = '''' \<and>
         Config.Nick (Config (snd (Connect w c))) = Config.Nick (Config c)"
  using assms
  by (auto simp: Connect_def Let_def Connect_handshake_nick emit_def newState_def
           split: if_splits)

lemma Whowas_wait_timeout:
  "(\<forall>e\<in>set inbound. \<not> (Command e = RPL_ENDOFWHOWAS \<and> length (Params e) = 2 \<and> Params e ! 1 = n))
   \<Longrightarrow> Whowas_wait n inbound events = None"
  by (induction inbound arbitrary: events) auto

lemma Whowas_cleanup:
  assumes "IsValidNick w n" and "IsConnected c"
  shows "Callbacks (snd (Whowas w c n inbound)) =
           filter (\<lambda>e. cb_id e \<noteq> new_id w (Callbacks c) \<and>
                        cb_id e \<noteq> new_id w (Callbacks c @
                           [\<lparr>cb_id = new_id w (Callbacks c), cb_cmd = RPL_WHOWASUSER, cb_bg = True\<rparr>]))
                  (Callbacks c)"
  using assms
  by (auto simp: Whowas_def AddBg_def Remove_def Let_def Send_def emit_def
           split: option.splits intro: filter_cong)

subsection \<open>The earlier revision\<close>


lemma GetNick_rev0_eq:
  "GetNick_rev0 c = (if nick (state c) = '''' then Config.Nick (Config c) else nick (state c))"
  by (simp add: GetNick_rev0_def)

section \<open>The claims about the client\<close>




text \<open>
  C2. A failed read of a connected client runs \<^verbatim>\<open>Reconnect\<close> once. But when no
  transport opens, \<^verbatim>\<open>Reconnect\<close> makes one connection attempt, whatever
  \<^verbatim>\<open>MaxRetries\<close> is, not one and then \<^verbatim>\<open>MaxRetries\<close> more: the call of
  \<^verbatim>\<open>Connect\<close> is the init statement of the \<^verbatim>\<open>for\<close> loop, whose body only sleeps
  while \<^verbatim>\<open>tries\<close> counts up to \<^verbatim>\<open>MaxRetries\<close>. Then the error is returned and
  \<^verbatim>\<open>Stop\<close> is the last thing done.
\<close>

theorem Reconnect_single_attempt:
  assumes "\<not> reconnecting (state c)" and "\<not> hasQuit (state c)"
      and "0 < MaxRetries (Config c)"
      and "valid_config w (Config c)" and "\<not> Conn (Config c)"
      and "\<forall>k. \<not> dial_ok w k"
  shows "readLoop_failed_read w c = Reconnect w c \<and>
         fst (Reconnect w c) = Some TransportError \<and>
         dials (snd (Reconnect w c)) = dials c + 1 \<and>
         tries (snd (Reconnect w c)) = max (tries c) (MaxRetries (Config c)) \<and>
         last (trace (snd (Reconnect w c))) = StopSignal"
proof -
  let ?c3 = "Reconnect_prepare w (c\<lparr>state := (state c)\<lparr>reconnecting := True\<rparr>\<rparr>)"
  have R: "Reconnect w c = Reconnect_retry w ?c3"
    using assms(1-3) by (simp add: Reconnect_def Let_def Reconnect_prepare_facts)
  have "valid_config w (Config ?c3)" "\<not> Conn (Config ?c3)"
    using assms(4,5) by (simp_all add: Reconnect_prepare_facts)
  then have "fst (Reconnect w c) = Some TransportError \<and>
         dials (snd (Reconnect w c)) = dials c + 1 \<and>
         tries (snd (Reconnect w c)) = max (tries c) (MaxRetries (Config c)) \<and>
         last (trace (snd (Reconnect w c))) = StopSignal"
    unfolding R using Reconnect_retry_dial_fails [of w ?c3] assms(6)
    by (simp add: Reconnect_prepare_facts)
  moreover have "readLoop_failed_read w c = Reconnect w c"
    using assms(1,2) by (simp add: readLoop_failed_read_def)
  ultimately show ?thesis by simp
qed

theorem Reconnect_single_attempt_witness:
  "trace (snd (readLoop_failed_read failing_transport connected_client)) =
     [Encode \<lparr>Command = QUIT, Params = [], Trailing = ''reconnecting...'', Sensitive = False\<rparr>,
      CloseConn, Sleep 10000000000, Dial False ''irc.example.org'' 6667,
      Sleep 10000000000, Sleep 10000000000, StopSignal] \<and>
   dials (snd (readLoop_failed_read failing_transport connected_client)) = 1 \<and>
   tries (snd (readLoop_failed_read failing_transport connected_client)) = 2 \<and>
   MaxRetries (Config connected_client) = 2"
proof -
  have run: "trace (snd (Reconnect failing_transport connected_client)) =
     [Encode \<lparr>Command = QUIT, Params = [], Trailing = ''reconnecting...'', Sensitive = False\<rparr>,
      CloseConn, Sleep 10000000000, Dial False ''irc.example.org'' 6667,
      Sleep 10000000000, Sleep 10000000000, StopSignal]"
    by (simp add: failing_transport_def connected_client_def Reconnect_def
          Reconnect_prepare_def Reconnect_retry_def Let_def IsConnected_def Quit_def Send_def
          emit_def Connect_def Stop_def Second_def newState_def Reconnect_loop.simps)
  have h: "\<not> reconnecting (state connected_client)" "\<not> hasQuit (state connected_client)"
      "0 < MaxRetries (Config connected_client)"
      "valid_config failing_transport (Config connected_client)"
      "\<not> Conn (Config connected_client)" "\<forall>k. \<not> dial_ok failing_transport k"
    by (simp_all add: failing_transport_def connected_client_def valid_config_def)
  have m: "MaxRetries (Config connected_client) = 2" "tries connected_client = 0"
      "dials connected_client = 0"
    by (simp_all add: connected_client_def dials_def)
  show ?thesis
    using Reconnect_single_attempt [OF h] run m by simp
qed

text \<open>
  C10, as amended. With tracking not disabled, \<^verbatim>\<open>GetNick\<close> returns the nickname of
  the session when it is not empty and \<^verbatim>\<open>Config.Nick\<close> when it is: so it does for a
  fresh session, and behind a \<^verbatim>\<open>Connect\<close> that succeeded.
\<close>

theorem GetNick_with_tracking:
  "(\<not> DisableTracking (Config c) \<longrightarrow>
      GetNick c = Inr (if nick (state c) = '''' then Config.Nick (Config c) else nick (state c))) \<and>
   (\<not> DisableTracking (Config c) \<and> nick (state c) = '''' \<longrightarrow>
      GetNick c = Inr (Config.Nick (Config c))) \<and>
   (\<not> DisableTracking (Config c) \<and> fst (Connect w b) = None \<and> c = snd (Connect w b) \<longrightarrow>
      GetNick c = Inr (Config.Nick (Config b)))"
  using Connect_success_nick [of w b] by (auto simp: GetNick_def)

theorem GetNick_with_tracking_witness:
  "GetNick connected_client = Inr ''girc'' \<and>
   GetNick (connected_client\<lparr>state := (state connected_client)\<lparr>nick := ''girc_''\<rparr>\<rparr>)
     = Inr ''girc_''"
  using GetNick_with_tracking [of connected_client failing_transport connected_client]
        GetNick_with_tracking
          [of "connected_client\<lparr>state := (state connected_client)\<lparr>nick := ''girc_''\<rparr>\<rparr>"
              failing_transport connected_client]
  by (simp add: connected_client_def)

text \<open>
  C10 as it was stated fails with tracking disabled: the session never changed the
  nickname, and \<^verbatim>\<open>GetNick\<close> does not return \<^verbatim>\<open>Config.Nick\<close>. Its doc comment has
  it return the empty string there; the code does neither.
\<close>

theorem GetNick_tracking_disabled_counterexample:
  "nick (state (connected_client
           \<lparr>Config := (Config connected_client)\<lparr>DisableTracking := True\<rparr>\<rparr>)) = '''' \<and>
   GetNick (connected_client\<lparr>Config := (Config connected_client)\<lparr>DisableTracking := True\<rparr>\<rparr>)
     = Inl (Panic ''GetNick() used when tracking is disabled'') \<and>
   GetNick (connected_client\<lparr>Config := (Config connected_client)\<lparr>DisableTracking := True\<rparr>\<rparr>)
     \<noteq> Inr (Config.Nick (Config connected_client))"
  by (simp add: GetNick_def connected_client_def)

text \<open>
  C5. For a valid nickname and a connected client: when none of the events dispatched in
  the two seconds is the end of the reply for this nickname, \<^verbatim>\<open>Whowas\<close> returns the
  timeout error with the identifiers of its two callbacks, joined by \<^verbatim>\<open>" + "\<close>, and
  the two seconds. Whatever the events are, on the timeout and on the completed path
  alike, the registry is afterwards the one from before without any entry of the two
  identifiers: no callback that the call registered is left.
\<close>

theorem Whowas_timeout_and_cleanup:
  assumes "IsValidNick w n" and "IsConnected c"
  shows "let whoCb = new_id w (Callbacks c);
             whoDoneCb = new_id w (Callbacks c @
                           [\<lparr>cb_id = whoCb, cb_cmd = RPL_WHOWASUSER, cb_bg = True\<rparr>])
         in ((\<forall>e\<in>set inbound. \<not> (Command e = RPL_ENDOFWHOWAS \<and> length (Params e) = 2 \<and>
                                     Params e ! 1 = n)) \<longrightarrow>
               fst (Whowas w c n inbound) =
                 Inl (ErrCallbackTimedout (whoCb @ '' + '' @ whoDoneCb) (2 * Second))) \<and>
            Callbacks (snd (Whowas w c n inbound)) =
              filter (\<lambda>e. cb_id e \<noteq> whoCb \<and> cb_id e \<noteq> whoDoneCb) (Callbacks c) \<and>
            (\<forall>e\<in>set (Callbacks (snd (Whowas w c n inbound))).
               e \<in> set (Callbacks c) \<and> cb_id e \<noteq> whoCb \<and> cb_id e \<noteq> whoDoneCb)"
proof -
  let ?whoCb = "new_id w (Callbacks c)"
  let ?whoDoneCb = "new_id w (Callbacks c @
                      [\<lparr>cb_id = ?whoCb, cb_cmd = RPL_WHOWASUSER, cb_bg = True\<rparr>])"
  have timeout: "fst (Whowas w c n inbound) =
                   Inl (ErrCallbackTimedout (?whoCb @ '' + '' @ ?whoDoneCb) (2 * Second))"
    if "\<forall>e\<in>set inbound. \<not> (Command e = RPL_ENDOFWHOWAS \<and> length (Params e) = 2 \<and>
                              Params e ! 1 = n)"
    using assms Whowas_wait_timeout [OF that, of "[]"]
    by (simp add: Whowas_def AddBg_def Let_def)
  have cleanup: "Callbacks (snd (Whowas w c n inbound)) =
                   filter (\<lambda>e. cb_id e \<noteq> ?whoCb \<and> cb_id e \<noteq> ?whoDoneCb) (Callbacks c)"
    using assms by (rule Whowas_cleanup)
  have "\<forall>e\<in>set (Callbacks (snd (Whowas w c n inbound))).
          e \<in> set (Callbacks c) \<and> cb_id e \<noteq> ?whoCb \<and> cb_id e \<noteq> ?whoDoneCb"
    unfolding cleanup by simp
  with timeout cleanup show ?thesis by (simp add: Let_def)
qed

theorem Whowas_timeout_and_cleanup_witness:
  "Whowas failing_transport connected_client ''ghost'' [] =
     (Inl (ErrCallbackTimedout ''cc + ccc'' 2000000000),
      connected_client\<lparr>trace := [Encode \<lparr>Command = WHOWAS, Params = [''ghost'', ''10''],
                                          Trailing = '''', Sensitive = False\<rparr>]\<rparr>) \<and>
   Callbacks (snd (Whowas failing_transport connected_client ''ghost'' [])) =
     [\<lparr>cb_id = ''c'', cb_cmd = Other ''PING'', cb_bg = False\<rparr>] \<and>
   fst (Whowas failing_transport connected_client ''ghost''
     [\<lparr>Command = RPL_WHOWASUSER, Params = [''girc'', ''ghost'', ''boo'', ''example.org'', ''*''],
       Trailing = ''A Ghost'', Sensitive = False\<rparr>,
      \<lparr>Command = RPL_ENDOFWHOWAS, Params = [''girc'', ''ghost''],
       Trailing = ''End of WHOWAS'', Sensitive = False\<rparr>]) =
     Inr [\<lparr>User.Nick = ''ghost'', Ident = ''boo'', Host = ''example.org'',
           User.Name = ''A Ghost''\<rparr>] \<and>
   Callbacks (snd (Whowas failing_transport connected_client ''ghost''
     [\<lparr>Command = RPL_WHOWASUSER, Params = [''girc'', ''ghost'', ''boo'', ''example.org'', ''*''],
       Trailing = ''A Ghost'', Sensitive = False\<rparr>,
      \<lparr>Command = RPL_ENDOFWHOWAS, Params = [''girc'', ''ghost''],
       Trailing = ''End of WHOWAS'', Sensitive = False\<rparr>])) =
     [\<lparr>cb_id = ''c'', cb_cmd = Other ''PING'', cb_bg = False\<rparr>]"
proof -
  have h: "IsValidNick failing_transport ''ghost''" "IsConnected connected_client"
    by (simp_all add: failing_transport_def connected_client_def IsConnected_def)
  show ?thesis
    using Whowas_timeout_and_cleanup [OF h, of "[]"]
    by (simp add: failing_transport_def connected_client_def IsConnected_def Whowas_def
          AddBg_def Remove_def Send_def emit_def Let_def Second_def)
qed

end
